theory Spec2Isabelle
  imports Main
begin

section \<open>The cluster manager of halin: data model\<close>

text \<open>
  The second part of \<^verbatim>\<open>src/src/App.js\<close> is the class \<^verbatim>\<open>ClusterManager\<close>. It runs
  one administrative statement on every member of a Neo4j cluster, packages the
  per-member outcomes, and keeps a bounded log of events.

  JavaScript values are modelled by typed data: a property that may be absent
  (\<^verbatim>\<open>undefined\<close>) is an \<open>option\<close>, an object is a record, an array is a list. A
  \<^verbatim>\<open>throw\<close> is the \<open>Inl\<close> of a sum. The calls to \<^verbatim>\<open>sentry\<close> only log and are left out,
  and \<^verbatim>\<open>node.getBoltAddress()\<close> is a plain accessor that does not throw.
\<close>

datatype error = Error string | TypeError string

text \<open>A cluster member: the handle \<^verbatim>\<open>node\<close> with its bolt address and its role label.\<close>

record cluster_node =
  getBoltAddress :: string
  role :: string

text \<open>
  The object built by \<^verbatim>\<open>clusterOpSuccess\<close> and \<^verbatim>\<open>clusterOpFailure\<close>. A success has the
  keys \<^verbatim>\<open>success, node, addr, results\<close>, a failure \<^verbatim>\<open>success, node, addr, err\<close>; the key
  an object does not have is \<open>None\<close>.
\<close>

record 'r cluster_op_result =
  success :: bool
  node :: cluster_node
  addr :: string
  results :: "'r option"
  err :: "error option"

text \<open>The object \<^verbatim>\<open>{ success, results }\<close> built by \<^verbatim>\<open>packageClusterOpResults\<close>.\<close>

record 'r aggregated_result =
  agg_success :: bool
  agg_results :: "'r cluster_op_result list"

definition clusterOpSuccess :: "cluster_node \<Rightarrow> 'r option \<Rightarrow> 'r cluster_op_result" where
  "clusterOpSuccess n rs =
     \<lparr>success = True, node = n, addr = getBoltAddress n, results = rs, err = None\<rparr>"

definition clusterOpFailure :: "cluster_node \<Rightarrow> error \<Rightarrow> 'r cluster_op_result" where
  "clusterOpFailure n e =
     \<lparr>success = False, node = n, addr = getBoltAddress n, results = None, err = Some e\<rparr>"

definition packageClusterOpResults :: "'r cluster_op_result list \<Rightarrow> 'r aggregated_result" where
  "packageClusterOpResults rs =
     \<lparr>agg_success = (length (filter success rs) = length rs), agg_results = rs\<rparr>"


section \<open>Promises\<close>

text \<open>
  A promise is modelled by the state it ends in: it stays pending forever, it is
  resolved with a value, or it is rejected with an error. \<^verbatim>\<open>p.then(f)\<close> and
  \<^verbatim>\<open>p.catch(h)\<close> are given here for callbacks that return a plain value and do not
  throw; a callback with an effect is written out where it occurs.
\<close>

datatype ('e, 'a) promise = Pending | Resolved 'a | Rejected 'e

definition then_p :: "('e, 'a) promise \<Rightarrow> ('a \<Rightarrow> 'b) \<Rightarrow> ('e, 'b) promise" where
  "then_p p f =
     (case p of Pending \<Rightarrow> Pending | Resolved v \<Rightarrow> Resolved (f v) | Rejected e \<Rightarrow> Rejected e)"

definition catch_p :: "('e, 'a) promise \<Rightarrow> ('e \<Rightarrow> 'a) \<Rightarrow> ('e, 'a) promise" where
  "catch_p p h =
     (case p of Pending \<Rightarrow> Pending | Resolved v \<Rightarrow> Resolved v | Rejected e \<Rightarrow> Resolved (h e))"

text \<open>
  \<^verbatim>\<open>Promise.all\<close> comes from the library bluebird, which is not part of the
  repository; it is modelled by its documented contract. The input promises settle in
  some order, given as the list \<open>sched\<close> of their positions. A resolved promise stores
  its value in the slot of its own position; the first rejection rejects the whole;
  when every slot is filled the whole resolves with the slots in position order. An
  empty input resolves at once. A position outside the input, and a promise that
  never settles, contribute nothing; when \<open>sched\<close> is used up before every slot is
  filled the whole stays pending.
\<close>

fun settleAll :: "nat list \<Rightarrow> ('e, 'a) promise list \<Rightarrow> 'a option list \<Rightarrow> ('e, 'a list) promise" where
  "settleAll [] ps vals = Pending"
| "settleAll (i # sched) ps vals =
     (if i < length ps then
        (case ps ! i of
           Pending \<Rightarrow> settleAll sched ps vals
         | Rejected e \<Rightarrow> Rejected e
         | Resolved v \<Rightarrow>
             (case those (vals[i := Some v]) of
                Some vs \<Rightarrow> Resolved vs
              | None \<Rightarrow> settleAll sched ps (vals[i := Some v])))
      else settleAll sched ps vals)"

definition promiseAll :: "nat list \<Rightarrow> ('e, 'a) promise list \<Rightarrow> ('e, 'a list) promise" where
  "promiseAll sched ps =
     (if length ps = 0 then Resolved [] else settleAll sched ps (replicate (length ps) None))"

section \<open>The environment of a cluster manager\<close>

text \<open>
  \<^verbatim>\<open>this.ctx.members()\<close> is the list of members, and \<^verbatim>\<open>node.run(query, params)\<close> is the
  driver call, which always returns a promise; the promise ends as \<open>run\<close> says, and
  \<open>Pending\<close> stands for a member that never answers. The query text
  \<^verbatim>\<open>ql.DBMS_SECURITY_USER_ROLES\<close> lives in a file that is not among the sources and is
  a parameter. A row of a result maps column names to values; parameters map names to
  values that may be \<^verbatim>\<open>undefined\<close>.
\<close>

type_synonym row = "(string \<times> string) list"

type_synonym params = "(string \<times> string option) list"

record env =
  members :: "cluster_node list"
  run :: "cluster_node \<Rightarrow> string \<Rightarrow> params \<Rightarrow> (error, row list) promise"
  DBMS_SECURITY_USER_ROLES :: string

section \<open>The event log\<close>

text \<open>
  Modelled from the spec: the class \<^verbatim>\<open>Ring\<close> of the library ringjs is not among the
  sources. The spec describes the log as a FIFO ring of fixed capacity: an append
  inserts at the tail and, if the size then exceeds the capacity, evicts from the head;
  the snapshot returns the contents oldest first.
\<close>

record 'a ring =
  capacity :: nat
  items :: "'a list"

definition Ring_new :: "nat \<Rightarrow> 'a ring" where
  "Ring_new cap = \<lparr>capacity = cap, items = []\<rparr>"

definition ring_push :: "'a \<Rightarrow> 'a ring \<Rightarrow> 'a ring" where
  "ring_push x r =
     (if capacity r < length (items r @ [x]) then r\<lparr>items := tl (items r @ [x])\<rparr>
      else r\<lparr>items := items r @ [x]\<rparr>)"

definition ring_toArray :: "'a ring \<Rightarrow> 'a list" where
  "ring_toArray r = items r"

definition MAX_EVENTS :: nat where
  "MAX_EVENTS = 200"

text \<open>
  The payloads the manager itself stores: a name (\<^verbatim>\<open>adduser\<close>, \<^verbatim>\<open>deleteuser\<close>) or the
  object \<^verbatim>\<open>{ username, roles }\<close> (\<^verbatim>\<open>roleassoc\<close>).
\<close>

datatype payload = PString string | PUserRoles string "string list"

record event =
  ev_type :: "string option"
  ev_message :: "string option"
  ev_payload :: "payload option"

text \<open>
  The stored object: the deep copy of the event with \<^verbatim>\<open>date\<close>, \<^verbatim>\<open>payload\<close> and \<^verbatim>\<open>id\<close>
  set. A payload of \<open>None\<close> is \<^verbatim>\<open>null\<close>.
\<close>

record entry =
  entry_type :: "string option"
  entry_message :: "string option"
  entry_date :: string
  entry_payload :: "payload option"
  entry_id :: string

text \<open>\<^verbatim>\<open>!x\<close> for a property that holds a string or is absent.\<close>

definition falsy :: "string option \<Rightarrow> bool" where
  "falsy x = (case x of None \<Rightarrow> True | Some s \<Rightarrow> s = [])"

text \<open>\<^verbatim>\<open>event.payload || null\<close>: an absent payload and the empty string give \<^verbatim>\<open>null\<close>.\<close>

definition payload_or_null :: "payload option \<Rightarrow> payload option" where
  "payload_or_null p =
     (case p of
        None \<Rightarrow> None
      | Some (PString s) \<Rightarrow> (if s = [] then None else Some (PString s))
      | Some (PUserRoles u rs) \<Rightarrow> Some (PUserRoles u rs))"

text \<open>
  The clock \<^verbatim>\<open>moment.utc().toISOString()\<close> and \<^verbatim>\<open>uuid.v4()\<close> are read from outside:
  the pair \<open>stamp\<close> is the date and the id the call receives.
\<close>

definition stampEvent :: "string \<times> string \<Rightarrow> event \<Rightarrow> entry" where
  "stampEvent stamp event =
     \<lparr>entry_type = ev_type event, entry_message = ev_message event, entry_date = fst stamp,
      entry_payload = payload_or_null (ev_payload event), entry_id = snd stamp\<rparr>"

text \<open>The constructor's \<^verbatim>\<open>this.eventLog = new Ring(MAX_EVENTS)\<close>.\<close>

definition newEventLog :: "entry ring" where
  "newEventLog = Ring_new MAX_EVENTS"

text \<open>
  \<^verbatim>\<open>addEvent\<close> returns the log it leaves behind together with \<open>Inl\<close> of the error it
  throws or \<open>Inr ()\<close>.
\<close>

definition addEvent :: "string \<times> string \<Rightarrow> event \<Rightarrow> entry ring \<Rightarrow> (error + unit) \<times> entry ring" where
  "addEvent stamp event log =
     (if falsy (ev_message event) \<or> falsy (ev_type event) then
        (Inl (Error ''ClusterManager events must have at least message, type''), log)
      else (Inr (), ring_push (stampEvent stamp event) log))"

definition getEventLog :: "entry ring \<Rightarrow> entry list" where
  "getEventLog log = ring_toArray log"

text \<open>A sequence of calls of \<^verbatim>\<open>addEvent\<close> on one manager, each with its own stamp.\<close>

fun addEvents :: "((string \<times> string) \<times> event) list \<Rightarrow> entry ring \<Rightarrow> entry ring" where
  "addEvents [] log = log"
| "addEvents (se # rest) log = addEvents rest (snd (addEvent (fst se) (snd se) log))"

section \<open>Mapping a query across the cluster\<close>

definition mapQueryAcrossCluster ::
  "env \<Rightarrow> nat list \<Rightarrow> string \<Rightarrow> params \<Rightarrow> (error, row list aggregated_result) promise" where
  "mapQueryAcrossCluster env sched query ps =
     (let promises =
        map (\<lambda>node.
               catch_p
                 (then_p (run env node query ps) (\<lambda>results. clusterOpSuccess node (Some results)))
                 (\<lambda>err. clusterOpFailure node err))
            (members env)
      in then_p (promiseAll sched promises) packageClusterOpResults)"

section \<open>Adding and deleting a user\<close>

record user =
  username :: "string option"
  password :: "string option"

text \<open>
  The argument \<^verbatim>\<open>user\<close> is an object, or \<open>None\<close> for \<^verbatim>\<open>undefined\<close> and \<^verbatim>\<open>null\<close>, whose
  destructuring throws a TypeError. \<^verbatim>\<open>!user\<close> is false for every object.
\<close>

definition not_object :: "'a option \<Rightarrow> bool" where
  "not_object x = (case x of None \<Rightarrow> True | Some _ \<Rightarrow> False)"

text \<open>A template literal prints an absent value as the word \<^verbatim>\<open>undefined\<close>.\<close>

definition str_of :: "string option \<Rightarrow> string" where
  "str_of x = (case x of None \<Rightarrow> ''undefined'' | Some s \<Rightarrow> s)"

definition dquote :: string where
  "dquote = [CHR 0x22]"

definition quoted :: "string \<Rightarrow> string" where
  "quoted s = dquote @ s @ dquote"

text \<open>
  The event of a user or role operation is added in the \<^verbatim>\<open>.then\<close> after the mapped
  query: when that promise resolves, \<^verbatim>\<open>addEvent\<close> runs, and an error it throws rejects
  the promise returned to the caller.
\<close>

definition thenAddEvent ::
  "(error, 'a) promise \<Rightarrow> string \<times> string \<Rightarrow> event \<Rightarrow> entry ring \<Rightarrow> (error, 'a) promise \<times> entry ring" where
  "thenAddEvent p stamp event log =
     (case p of
        Pending \<Rightarrow> (Pending, log)
      | Rejected e \<Rightarrow> (Rejected e, log)
      | Resolved result \<Rightarrow>
          (case addEvent stamp event log of
             (Inl e, log') \<Rightarrow> (Rejected e, log')
           | (Inr _, log') \<Rightarrow> (Resolved result, log')))"

text \<open>
  A call returns \<open>Inl\<close> of the error thrown synchronously, or \<open>Inr\<close> of the promise
  handed back, together with the event log once everything has settled.
\<close>

definition addUser ::
  "env \<Rightarrow> nat list \<Rightarrow> string \<times> string \<Rightarrow> user option \<Rightarrow> entry ring
     \<Rightarrow> (error + (error, row list aggregated_result) promise) \<times> entry ring" where
  "addUser env sched stamp user log =
     (case user of
        None \<Rightarrow> (Inl (TypeError ''Cannot destructure property of undefined or null''), log)
      | Some u \<Rightarrow>
          (if not_object user \<or> falsy (password u) then
             (Inl (Error ''Call with object containing keys username, password''), log)
           else
             (case thenAddEvent
                     (mapQueryAcrossCluster env sched
                        ''CALL dbms.security.createUser({username}, {password}, false)''
                        [(''username'', username u), (''password'', password u)])
                     stamp
                     \<lparr>ev_type = Some ''adduser'',
                      ev_message = Some (''Added user '' @ quoted (str_of (username u))),
                      ev_payload = map_option PString (username u)\<rparr>
                     log of
                (p, log') \<Rightarrow> (Inr p, log'))))"

definition deleteUser ::
  "env \<Rightarrow> nat list \<Rightarrow> string \<times> string \<Rightarrow> user option \<Rightarrow> entry ring
     \<Rightarrow> (error + (error, row list aggregated_result) promise) \<times> entry ring" where
  "deleteUser env sched stamp user log =
     (case user of
        None \<Rightarrow> (Inl (TypeError ''Cannot destructure property of undefined or null''), log)
      | Some u \<Rightarrow>
          (if falsy (username u) then
             (Inl (Error ''Call with an object containing keys username''), log)
           else
             (case thenAddEvent
                     (mapQueryAcrossCluster env sched
                        ''CALL dbms.security.deleteUser({username})''
                        [(''username'', username u)])
                     stamp
                     \<lparr>ev_type = Some ''deleteuser'',
                      ev_message = Some (''Deleted user '' @ quoted (str_of (username u))),
                      ev_payload = map_option PString (username u)\<rparr>
                     log of
                (p, log') \<Rightarrow> (Inr p, log'))))"

section \<open>Associating a user to roles\<close>

definition addNodeRole :: "env \<Rightarrow> cluster_node \<Rightarrow> string \<Rightarrow> string \<Rightarrow> (error, row list) promise" where
  "addNodeRole env n uname r =
     run env n ''call dbms.security.addRoleToUser({role}, {username})''
       [(''username'', Some uname), (''role'', Some r)]"

definition removeNodeRole :: "env \<Rightarrow> cluster_node \<Rightarrow> string \<Rightarrow> string \<Rightarrow> (error, row list) promise" where
  "removeNodeRole env n uname r =
     run env n ''call dbms.security.removeRoleFromUser({role}, {username})''
       [(''username'', Some uname), (''role'', Some r)]"

text \<open>
  Modelled from the spec: \<^verbatim>\<open>neo4j.unpackResults\<close> is in a file that is not among the
  sources. Given the rows and the required fields it projects the rows to plain
  records, and fails if a required field is absent.
\<close>

definition unpackResults :: "row list \<Rightarrow> string list \<Rightarrow> error + row list" where
  "unpackResults rows required =
     (if list_all (\<lambda>r. list_all (\<lambda>k. k \<in> fst ` set r) required) rows then Inr rows
      else Inl (Error ''Missing required field''))"

text \<open>\<^verbatim>\<open>r.value\<close> of a record; an absent property prints as \<^verbatim>\<open>undefined\<close>.\<close>

definition value_of :: "row \<Rightarrow> string" where
  "value_of r = str_of (map_of r ''value'')"

definition gatherRoles :: "env \<Rightarrow> string \<Rightarrow> cluster_node \<Rightarrow> (error, string list) promise" where
  "gatherRoles env uname n =
     (case run env n (DBMS_SECURITY_USER_ROLES env) [(''username'', Some uname)] of
        Pending \<Rightarrow> Pending
      | Rejected e \<Rightarrow> Rejected e
      | Resolved rows \<Rightarrow>
          (case unpackResults rows [''value''] of
             Inl e \<Rightarrow> Rejected e
           | Inr recs \<Rightarrow> Resolved (map value_of recs)))"

text \<open>
  A JavaScript \<^verbatim>\<open>Set\<close> keeps its elements in the order of their first insertion;
  \<^verbatim>\<open>new Set(xs)\<close> adds the elements of \<open>xs\<close> one by one, and \<^verbatim>\<open>[...s]\<close> lists them.
\<close>

definition set_add :: "'a list \<Rightarrow> 'a \<Rightarrow> 'a list" where
  "set_add s x = (if x \<in> set s then s else s @ [x])"

definition newSet :: "'a list \<Rightarrow> 'a list" where
  "newSet xs = foldl set_add [] xs"

definition has :: "'a list \<Rightarrow> 'a \<Rightarrow> bool" where
  "has s x = (x \<in> set s)"

record role_diff =
  toAdd :: "string list"
  toDelete :: "string list"
  toPreserve :: "string list"

definition determineDifferences :: "string list \<Rightarrow> string list \<Rightarrow> cluster_node \<Rightarrow> role_diff" where
  "determineDifferences roles rolesHere n =
     (let oldRoles = newSet rolesHere;
          newRoles = newSet roles;
          toDelete = newSet (filter (\<lambda>x. \<not> has newRoles x) oldRoles);
          toAdd = newSet (filter (\<lambda>x. \<not> has oldRoles x) newRoles);
          toPreserve = newSet (filter (\<lambda>x. has newRoles x) oldRoles)
      in \<lparr>toAdd = toAdd, toDelete = toDelete, toPreserve = toPreserve\<rparr>)"

text \<open>\<^verbatim>\<open>xs.join(sep)\<close>.\<close>

fun join :: "string \<Rightarrow> string list \<Rightarrow> string" where
  "join sep [] = []"
| "join sep [x] = x"
| "join sep (x # y # ys) = x @ sep @ join sep (y # ys)"

text \<open>
  \<open>isched\<close> is the order in which the grant and revoke calls of this member settle.
\<close>

definition applyChanges ::
  "env \<Rightarrow> nat list \<Rightarrow> string \<Rightarrow> role_diff \<Rightarrow> cluster_node \<Rightarrow> (error, string cluster_op_result) promise" where
  "applyChanges env isched uname roleChanges n =
     (let addPromises = map (\<lambda>r. addNodeRole env n uname r) (toAdd roleChanges);
          delPromises = map (\<lambda>r. removeNodeRole env n uname r) (toDelete roleChanges);
          allRolePromises = addPromises @ delPromises
      in catch_p
           (then_p (promiseAll isched allRolePromises)
              (\<lambda>_. let added = join '', '' (toAdd roleChanges);
                       removed = join '', '' (toDelete roleChanges);
                       addedStr = (if added = [] then [] else ''Added: '' @ added);
                       removedStr = (if removed = [] then [] else ''Removed: '' @ removed)
                   in clusterOpSuccess n
                        (Some (''Assigned roles to '' @ uname @ ''. '' @ addedStr @ '' '' @ removedStr))))
           (\<lambda>err. clusterOpFailure n err))"

text \<open>
  The chain of one member in \<^verbatim>\<open>associateUserToRoles\<close>: gather, diff, apply, then a
  callback that ignores its argument and adds the event, then a callback that ignores
  its argument and yields \<^verbatim>\<open>clusterOpSuccess(node)\<close>, and a final \<^verbatim>\<open>.catch\<close>.
\<close>

definition memberChain ::
  "env \<Rightarrow> nat list \<Rightarrow> string \<times> string \<Rightarrow> string \<Rightarrow> string list \<Rightarrow> cluster_node \<Rightarrow> entry ring
     \<Rightarrow> (error, string cluster_op_result) promise \<times> entry ring" where
  "memberChain env isched stamp uname roles n log =
     (case gatherRoles env uname n of
        Pending \<Rightarrow> (Pending, log)
      | Rejected e \<Rightarrow> (Resolved (clusterOpFailure n e), log)
      | Resolved rolesHere \<Rightarrow>
          (case applyChanges env isched uname (determineDifferences roles rolesHere n) n of
             Pending \<Rightarrow> (Pending, log)
           | Rejected e \<Rightarrow> (Resolved (clusterOpFailure n e), log)
           | Resolved _ \<Rightarrow>
               (case addEvent stamp
                       \<lparr>ev_type = Some ''roleassoc'',
                        ev_message =
                          Some (''Associated '' @ quoted uname @ '' to roles ''
                                @ join '', '' (map quoted roles)),
                        ev_payload = Some (PUserRoles uname roles)\<rparr>
                       log of
                  (Inl e, log') \<Rightarrow> (Resolved (clusterOpFailure n e), log')
                | (Inr _, log') \<Rightarrow> (Resolved (clusterOpSuccess n None), log'))))"

text \<open>
  The chains of the members advance in the order \<open>sched\<close>; each one that is still
  pending is run on the log the earlier ones left, and its outcome is stored at its
  position.
\<close>

fun runChains ::
  "nat list \<Rightarrow> ('s \<Rightarrow> ('e, 'a) promise \<times> 's) list \<Rightarrow> ('e, 'a) promise list \<Rightarrow> 's
     \<Rightarrow> ('e, 'a) promise list \<times> 's" where
  "runChains [] tasks ps s = (ps, s)"
| "runChains (i # sched) tasks ps s =
     (if i < length tasks then
        (case ps ! i of
           Pending \<Rightarrow> (case (tasks ! i) s of (p, s') \<Rightarrow> runChains sched tasks (ps[i := p]) s')
         | Resolved _ \<Rightarrow> runChains sched tasks ps s
         | Rejected _ \<Rightarrow> runChains sched tasks ps s)
      else runChains sched tasks ps s)"

text \<open>
  \<open>roles\<close> is \<open>None\<close> when the argument is not an array. \<open>ischeds i\<close> and \<open>stamps i\<close>
  are the settling order of the apply calls and the stamp for the member at position
  \<open>i\<close>.
\<close>

definition associateUserToRoles ::
  "env \<Rightarrow> nat list \<Rightarrow> (nat \<Rightarrow> nat list) \<Rightarrow> (nat \<Rightarrow> string \<times> string) \<Rightarrow> user option
     \<Rightarrow> string list option \<Rightarrow> entry ring
     \<Rightarrow> (error + (error, string aggregated_result) promise) \<times> entry ring" where
  "associateUserToRoles env sched ischeds stamps user roles log =
     (case roles of
        None \<Rightarrow> (Inl (Error ''roles must be an array''), log)
      | Some rs \<Rightarrow>
          (case user of
             None \<Rightarrow> (Inl (Error ''user must be an object with username''), log)
           | Some u \<Rightarrow>
               (if falsy (username u) then
                  (Inl (Error ''user must be an object with username''), log)
                else
                  (let uname = str_of (username u);
                       tasks =
                         map (\<lambda>(i, node). memberChain env (ischeds i) (stamps i) uname rs node)
                             (enumerate 0 (members env))
                   in case runChains sched tasks (replicate (length tasks) Pending) log of
                        (allPromises, log') \<Rightarrow>
                          (Inr (then_p (promiseAll sched allPromises) packageClusterOpResults),
                           log')))))"

section \<open>Sample clusters and inputs\<close>

definition node_a :: cluster_node where
  "node_a = \<lparr>getBoltAddress = ''bolt://a:7687'', role = ''LEADER''\<rparr>"

definition node_b :: cluster_node where
  "node_b = \<lparr>getBoltAddress = ''bolt://b:7687'', role = ''FOLLOWER''\<rparr>"

text \<open>Two members that answer every query; the user has the role \<^verbatim>\<open>reader\<close> on both.\<close>

definition env_ok :: env where
  "env_ok =
     \<lparr>members = [node_a, node_b],
      run = (\<lambda>n q ps. if q = ''CALL dbms.security.listRolesForUser({username})''
                       then Resolved [[(''value'', ''reader'')]] else Resolved []),
      DBMS_SECURITY_USER_ROLES = ''CALL dbms.security.listRolesForUser({username})''\<rparr>"

text \<open>Two members, the first of which is unreachable.\<close>

definition env_one_down :: env where
  "env_one_down =
     \<lparr>members = [node_a, node_b],
      run = (\<lambda>n q ps. if getBoltAddress n = ''bolt://a:7687''
                       then Rejected (Error ''ServiceUnavailable'') else Resolved []),
      DBMS_SECURITY_USER_ROLES = ''CALL dbms.security.listRolesForUser({username})''\<rparr>"

text \<open>
  One member on which the user exists without roles and on which every grant and
  revoke fails, as for a role that does not exist there.
\<close>

definition env_grant_fails :: env where
  "env_grant_fails =
     \<lparr>members = [node_a],
      run = (\<lambda>n q ps. if q = ''CALL dbms.security.listRolesForUser({username})'' then Resolved []
                       else Rejected (Error ''Role does not exist'')),
      DBMS_SECURITY_USER_ROLES = ''CALL dbms.security.listRolesForUser({username})''\<rparr>"

definition env_empty :: env where
  "env_empty =
     \<lparr>members = [],
      run = (\<lambda>n q ps. Resolved []),
      DBMS_SECURITY_USER_ROLES = ''CALL dbms.security.listRolesForUser({username})''\<rparr>"

definition alice :: user where
  "alice = \<lparr>username = Some ''alice'', password = None\<rparr>"

definition stamp0 :: "string \<times> string" where
  "stamp0 = (''2018-11-03T10:00:00.000Z'', ''id-0'')"

definition stamp1 :: "string \<times> string" where
  "stamp1 = (''2018-11-03T10:00:01.000Z'', ''id-1'')"

definition sample_event :: event where
  "sample_event =
     \<lparr>ev_type = Some ''addrole'', ev_message = Some ''Created role'', ev_payload = None\<rparr>"

text \<open>201 valid events whose ids differ.\<close>

definition sample_events :: "((string \<times> string) \<times> event) list" where
  "sample_events =
     map (\<lambda>i. ((''2018-11-03T10:00:00.000Z'', replicate i (CHR ''x'')), sample_event)) [0..<201]"

section \<open>The packaging rule\<close>

lemma filter_length_all: "(length (filter P xs) = length xs) = (\<forall>x \<in> set xs. P x)"
proof (induction xs)
  case Nil
  show ?case by simp
next
  case (Cons x xs)
  have "length (filter P xs) \<le> length xs" by simp
  then have "length (filter P xs) \<noteq> Suc (length xs)" by arith
  with Cons show ?case by simp
qed

text \<open>
  Claim C1. The packaged result is a success exactly when every per-member result in
  the list is one; so with \<open>k\<close> failed members (the elements whose \<open>success\<close> is false)
  it is a success exactly when \<open>k = 0\<close>. The list of results is handed on unchanged.
\<close>

theorem packageClusterOpResults_success_iff_all:
  "agg_success (packageClusterOpResults rs) = (\<forall>r \<in> set rs. success r)
   \<and> agg_success (packageClusterOpResults rs) = (length (filter (\<lambda>r. \<not> success r) rs) = 0)
   \<and> agg_results (packageClusterOpResults rs) = rs"
proof -
  have a: "agg_success (packageClusterOpResults rs) = (\<forall>r \<in> set rs. success r)"
    by (simp add: packageClusterOpResults_def filter_length_all)
  have b: "(length (filter (\<lambda>r. \<not> success r) rs) = 0) = (\<forall>r \<in> set rs. success r)"
    by (simp add: filter_empty_conv)
  have c: "agg_results (packageClusterOpResults rs) = rs"
    by (simp add: packageClusterOpResults_def)
  from a b c show ?thesis by simp
qed

theorem packageClusterOpResults_success_iff_all_witness:
  "list_all success [clusterOpSuccess node_a (Some ''ok''), clusterOpSuccess node_b (Some ''ok'')]
   \<and> agg_success (packageClusterOpResults
        [clusterOpSuccess node_a (Some ''ok''), clusterOpSuccess node_b (Some ''ok'')])
   \<and> \<not> list_all success [clusterOpSuccess node_a (Some ''ok''), clusterOpFailure node_b (Error ''down'')]
   \<and> \<not> agg_success (packageClusterOpResults
        [clusterOpSuccess node_a (Some ''ok''), clusterOpFailure node_b (Error ''down'')])"
proof -
  have h: "\<forall>r \<in> set [clusterOpSuccess node_a (Some ''ok''), clusterOpSuccess node_b (Some ''ok'')]. success r"
    by (simp add: clusterOpSuccess_def)
  have k: "\<not> (\<forall>r \<in> set [clusterOpSuccess node_a (Some ''ok''), clusterOpFailure node_b (Error ''down'')].
               success r)"
    by (simp add: clusterOpFailure_def)
  from h k
    packageClusterOpResults_success_iff_all
      [of "[clusterOpSuccess node_a (Some ''ok''), clusterOpSuccess node_b (Some ''ok'')]"]
    packageClusterOpResults_success_iff_all
      [of "[clusterOpSuccess node_a (Some ''ok''), clusterOpFailure node_b (Error ''down'')]"]
  show ?thesis unfolding list_all_iff by blast
qed

section \<open>Joining promises\<close>

lemma those_eq_Some: "(those xs = Some ys) = (xs = map Some ys)"
proof (induction xs arbitrary: ys)
  case Nil
  show ?case by auto
next
  case (Cons x xs)
  show ?case
  proof (cases x)
    case None
    then show ?thesis by auto
  next
    case (Some v)
    then show ?thesis using Cons by (cases ys) auto
  qed
qed

lemma settleAll_Rejected: "settleAll sched ps vals = Rejected e \<Longrightarrow> Rejected e \<in> set ps"
proof (induction sched arbitrary: vals)
  case Nil
  then show ?case by simp
next
  case (Cons i sched)
  show ?case
  proof (cases "i < length ps")
    case False
    with Cons show ?thesis by simp
  next
    case True
    then have mem: "ps ! i \<in> set ps" by simp
    show ?thesis
    proof (cases "ps ! i")
      case Pending
      with True Cons show ?thesis by simp
    next
      case (Rejected e')
      with True Cons.prems have "e' = e" by simp
      with Rejected mem show ?thesis by simp
    next
      case (Resolved v)
      show ?thesis
      proof (cases "those (vals[i := Some v])")
        case None
        with Resolved True Cons show ?thesis by simp
      next
        case (Some vs)
        with Resolved True Cons.prems show ?thesis by simp
      qed
    qed
  qed
qed

lemma settleAll_Resolved:
  assumes "length vals = length vs"
    and "\<forall>i < length vs. vals ! i = None \<or> vals ! i = Some (vs ! i)"
    and "\<forall>i < length vs. vals ! i = None \<longrightarrow> i \<in> set sched"
    and "those vals = None"
  shows "settleAll sched (map Resolved vs) vals = Resolved vs"
  using assms
proof (induction sched arbitrary: vals)
  case Nil
  then have "\<forall>i < length vs. vals ! i = Some (vs ! i)" by fastforce
  with Nil.prems(1) have "vals = map Some vs" by (simp add: list_eq_iff_nth_eq)
  then have "those vals = Some vs" by (simp add: those_eq_Some)
  with Nil.prems(4) show ?case by simp
next
  case (Cons i sched)
  show ?case
  proof (cases "i < length vs")
    case False
    have "\<forall>j < length vs. vals ! j = None \<longrightarrow> j \<in> set sched"
      using Cons.prems(3) False by auto
    with Cons False show ?thesis by simp
  next
    case True
    let ?vals = "vals[i := Some (vs ! i)]"
    have len: "length ?vals = length vs" using Cons.prems(1) by simp
    have ivals: "i < length vals" using True Cons.prems(1) by simp
    have upd: "?vals ! j = (if i = j then Some (vs ! i) else vals ! j)" for j
      using ivals by (simp add: nth_list_update)
    have inv: "\<forall>j < length vs. ?vals ! j = None \<or> ?vals ! j = Some (vs ! j)"
      using Cons.prems(2) by (simp add: upd)
    have cov: "\<forall>j < length vs. ?vals ! j = None \<longrightarrow> j \<in> set sched"
      using Cons.prems(3) by (auto simp: upd)
    show ?thesis
    proof (cases "those ?vals")
      case None
      with Cons.IH [OF len inv cov] True show ?thesis by simp
    next
      case (Some ws)
      then have "?vals = map Some ws" by (simp add: those_eq_Some)
      with inv len have "ws = vs"
        by (auto simp: list_eq_iff_nth_eq)
      with Some True show ?thesis by simp
    qed
  qed
qed

lemma promiseAll_Resolved:
  assumes "{..<length vs} \<subseteq> set sched"
  shows "promiseAll sched (map Resolved vs) = Resolved vs"
proof (cases "vs = []")
  case True
  then show ?thesis by (simp add: promiseAll_def)
next
  case False
  then have "None \<in> set (replicate (length vs) None)" by simp
  then have "those (replicate (length vs) (None :: 'a option)) = None"
    by (metis those_eq_Some option.exhaust imageE list.set_map option.distinct(1))
  moreover have "\<forall>i < length vs. i \<in> set sched" using assms by auto
  ultimately have "settleAll sched (map Resolved vs) (replicate (length vs) None) = Resolved vs"
    by (intro settleAll_Resolved) auto
  with False show ?thesis by (simp add: promiseAll_def)
qed

lemma promiseAll_Rejected: "promiseAll sched ps = Rejected e \<Longrightarrow> Rejected e \<in> set ps"
  by (auto simp: promiseAll_def dest: settleAll_Rejected split: if_splits)

section \<open>The fan-out never rejects\<close>

lemma member_promise:
  "catch_p (then_p p (\<lambda>results. clusterOpSuccess n (Some results))) (\<lambda>err. clusterOpFailure n err)
     = (case p of
          Pending \<Rightarrow> Pending
        | Resolved rows \<Rightarrow> Resolved (clusterOpSuccess n (Some rows))
        | Rejected e \<Rightarrow> Resolved (clusterOpFailure n e))"
  by (simp add: then_p_def catch_p_def split: promise.splits)

lemma member_promises_settled:
  assumes "\<forall>n \<in> set ms. run env n query ps \<noteq> Pending"
  shows "\<exists>vs. map (\<lambda>node. catch_p (then_p (run env node query ps)
                                  (\<lambda>results. clusterOpSuccess node (Some results)))
                           (\<lambda>err. clusterOpFailure node err)) ms
               = map Resolved vs
           \<and> length vs = length ms
           \<and> map node vs = ms
           \<and> (\<forall>i < length ms.
                 (\<forall>e. run env (ms ! i) query ps = Rejected e
                        \<longrightarrow> vs ! i = clusterOpFailure (ms ! i) e)
               \<and> (\<forall>rows. run env (ms ! i) query ps = Resolved rows
                        \<longrightarrow> vs ! i = clusterOpSuccess (ms ! i) (Some rows)))"
proof -
  define f where "f n = (case run env n query ps of
                           Resolved rows \<Rightarrow> clusterOpSuccess n (Some rows)
                         | Rejected e \<Rightarrow> clusterOpFailure n e
                         | Pending \<Rightarrow> clusterOpFailure n (Error []))" for n
  have a: "map (\<lambda>node. catch_p (then_p (run env node query ps)
                                  (\<lambda>results. clusterOpSuccess node (Some results)))
                           (\<lambda>err. clusterOpFailure node err)) ms
             = map Resolved (map f ms)"
    using assms by (auto simp: member_promise f_def split: promise.splits)
  have b: "map node (map f ms) = ms"
    by (induction ms) (auto simp: f_def clusterOpSuccess_def clusterOpFailure_def split: promise.splits)
  have c: "\<forall>i < length ms.
                 (\<forall>e. run env (ms ! i) query ps = Rejected e
                        \<longrightarrow> map f ms ! i = clusterOpFailure (ms ! i) e)
               \<and> (\<forall>rows. run env (ms ! i) query ps = Resolved rows
                        \<longrightarrow> map f ms ! i = clusterOpSuccess (ms ! i) (Some rows))"
    by (simp add: f_def)
  from a b c show ?thesis by (intro exI [of _ "map f ms"]) simp
qed

lemma mapQueryAcrossCluster_not_Rejected: "mapQueryAcrossCluster env sched query ps \<noteq> Rejected e"
proof
  assume "mapQueryAcrossCluster env sched query ps = Rejected e"
  then have "promiseAll sched
       (map (\<lambda>node. catch_p (then_p (run env node query ps)
                                  (\<lambda>results. clusterOpSuccess node (Some results)))
                           (\<lambda>err. clusterOpFailure node err)) (members env)) = Rejected e"
    by (simp add: mapQueryAcrossCluster_def then_p_def split: promise.splits)
  then have "Rejected e \<in> set (map (\<lambda>node. catch_p (then_p (run env node query ps)
                                  (\<lambda>results. clusterOpSuccess node (Some results)))
                           (\<lambda>err. clusterOpFailure node err)) (members env))"
    by (rule promiseAll_Rejected)
  then show False by (auto simp: member_promise split: promise.splits)
qed

lemma mapQueryAcrossCluster_settled:
  assumes "\<forall>n \<in> set (members env). run env n query ps \<noteq> Pending"
  shows "\<exists>vs. (\<forall>sched. set [0..<length (members env)] \<subseteq> set sched \<longrightarrow>
                  mapQueryAcrossCluster env sched query ps = Resolved (packageClusterOpResults vs))
           \<and> length vs = length (members env)
           \<and> map node vs = members env
           \<and> (\<forall>i < length (members env).
                 (\<forall>e. run env (members env ! i) query ps = Rejected e
                        \<longrightarrow> vs ! i = clusterOpFailure (members env ! i) e)
               \<and> (\<forall>rows. run env (members env ! i) query ps = Resolved rows
                        \<longrightarrow> vs ! i = clusterOpSuccess (members env ! i) (Some rows)))"
proof -
  from member_promises_settled [OF assms] obtain vs where
    m: "map (\<lambda>node. catch_p (then_p (run env node query ps)
                                  (\<lambda>results. clusterOpSuccess node (Some results)))
                           (\<lambda>err. clusterOpFailure node err)) (members env)
               = map Resolved vs"
    and l: "length vs = length (members env)"
    and rest: "map node vs = members env"
       "\<forall>i < length (members env).
                 (\<forall>e. run env (members env ! i) query ps = Rejected e
                        \<longrightarrow> vs ! i = clusterOpFailure (members env ! i) e)
               \<and> (\<forall>rows. run env (members env ! i) query ps = Resolved rows
                        \<longrightarrow> vs ! i = clusterOpSuccess (members env ! i) (Some rows))"
    by blast
  have "mapQueryAcrossCluster env sched query ps = Resolved (packageClusterOpResults vs)"
    if "set [0..<length (members env)] \<subseteq> set sched" for sched
  proof -
    from that l have cov: "{..<length vs} \<subseteq> set sched" by (simp add: atLeast0LessThan)
    have "mapQueryAcrossCluster env sched query ps
            = then_p (promiseAll sched (map Resolved vs)) packageClusterOpResults"
      unfolding mapQueryAcrossCluster_def Let_def m ..
    then show ?thesis by (simp add: promiseAll_Resolved [OF cov] then_p_def)
  qed
  with l rest show ?thesis by blast
qed

text \<open>
  Claim C2. \<^verbatim>\<open>mapQueryAcrossCluster\<close> never hands a failure of a member upward: for
  every cluster, query, parameters and settling order the returned promise is not
  rejected. When every member's \<^verbatim>\<open>run\<close> settles and every member's task is in the
  settling order, the promise resolves to an aggregated result built by the packaging
  rule. In it a member whose run failed with \<open>e\<close> has the entry
  \<^verbatim>\<open>clusterOpFailure(node, e)\<close>: \<open>success\<close> is false, \<open>err\<close> is \<open>e\<close>, there are no
  results, and \<open>node\<close> and \<open>addr\<close> are the member and its address. A member whose run
  gave \<open>rows\<close> has the entry \<^verbatim>\<open>clusterOpSuccess(node, rows)\<close>: \<open>success\<close> is true,
  \<open>results\<close> is \<open>rows\<close>, there is no error, and \<open>node\<close> and \<open>addr\<close> are the member
  and its address.
\<close>

theorem mapQueryAcrossCluster_captures_failures:
  "(\<forall>e. mapQueryAcrossCluster env sched query ps \<noteq> Rejected e)
   \<and> ((\<forall>n \<in> set (members env). run env n query ps \<noteq> Pending)
        \<and> set [0..<length (members env)] \<subseteq> set sched \<longrightarrow>
      (\<exists>agg. mapQueryAcrossCluster env sched query ps = Resolved agg
         \<and> agg_success agg = (\<forall>r \<in> set (agg_results agg). success r)
         \<and> length (agg_results agg) = length (members env)
         \<and> (\<forall>i < length (members env).
               (\<forall>e. run env (members env ! i) query ps = Rejected e
                      \<longrightarrow> agg_results agg ! i = clusterOpFailure (members env ! i) e
                          \<and> success (agg_results agg ! i) = False
                          \<and> err (agg_results agg ! i) = Some e
                          \<and> results (agg_results agg ! i) = None
                          \<and> node (agg_results agg ! i) = members env ! i
                          \<and> addr (agg_results agg ! i) = getBoltAddress (members env ! i))
             \<and> (\<forall>rows. run env (members env ! i) query ps = Resolved rows
                      \<longrightarrow> agg_results agg ! i = clusterOpSuccess (members env ! i) (Some rows)
                          \<and> success (agg_results agg ! i) = True
                          \<and> results (agg_results agg ! i) = Some rows
                          \<and> err (agg_results agg ! i) = None
                          \<and> node (agg_results agg ! i) = members env ! i
                          \<and> addr (agg_results agg ! i) = getBoltAddress (members env ! i)))))"
proof -
  have a: "\<forall>e. mapQueryAcrossCluster env sched query ps \<noteq> Rejected e"
    by (simp add: mapQueryAcrossCluster_not_Rejected)
  have b: "\<exists>agg. mapQueryAcrossCluster env sched query ps = Resolved agg
         \<and> agg_success agg = (\<forall>r \<in> set (agg_results agg). success r)
         \<and> length (agg_results agg) = length (members env)
         \<and> (\<forall>i < length (members env).
               (\<forall>e. run env (members env ! i) query ps = Rejected e
                      \<longrightarrow> agg_results agg ! i = clusterOpFailure (members env ! i) e
                          \<and> success (agg_results agg ! i) = False
                          \<and> err (agg_results agg ! i) = Some e
                          \<and> results (agg_results agg ! i) = None
                          \<and> node (agg_results agg ! i) = members env ! i
                          \<and> addr (agg_results agg ! i) = getBoltAddress (members env ! i))
             \<and> (\<forall>rows. run env (members env ! i) query ps = Resolved rows
                      \<longrightarrow> agg_results agg ! i = clusterOpSuccess (members env ! i) (Some rows)
                          \<and> success (agg_results agg ! i) = True
                          \<and> results (agg_results agg ! i) = Some rows
                          \<and> err (agg_results agg ! i) = None
                          \<and> node (agg_results agg ! i) = members env ! i
                          \<and> addr (agg_results agg ! i) = getBoltAddress (members env ! i)))"
    if settle: "\<forall>n \<in> set (members env). run env n query ps \<noteq> Pending"
      and cover: "set [0..<length (members env)] \<subseteq> set sched"
  proof -
    from mapQueryAcrossCluster_settled [OF settle] cover obtain vs where
      r: "mapQueryAcrossCluster env sched query ps = Resolved (packageClusterOpResults vs)"
      and l: "length vs = length (members env)"
      and c: "\<forall>i < length (members env).
                 (\<forall>e. run env (members env ! i) query ps = Rejected e
                        \<longrightarrow> vs ! i = clusterOpFailure (members env ! i) e)
               \<and> (\<forall>rows. run env (members env ! i) query ps = Resolved rows
                        \<longrightarrow> vs ! i = clusterOpSuccess (members env ! i) (Some rows))"
      by blast
    have f: "success (clusterOpFailure n e :: row list cluster_op_result) = False
         \<and> err (clusterOpFailure n e :: row list cluster_op_result) = Some e
         \<and> results (clusterOpFailure n e :: row list cluster_op_result) = None
         \<and> node (clusterOpFailure n e :: row list cluster_op_result) = n
         \<and> addr (clusterOpFailure n e :: row list cluster_op_result) = getBoltAddress n" for n e
      by (simp add: clusterOpFailure_def)
    have k: "success (clusterOpSuccess n (Some rows)) = True
         \<and> results (clusterOpSuccess n (Some rows)) = Some rows
         \<and> err (clusterOpSuccess n (Some rows)) = None
         \<and> node (clusterOpSuccess n (Some rows)) = n
         \<and> addr (clusterOpSuccess n (Some rows)) = getBoltAddress n" for n and rows :: "row list"
      by (simp add: clusterOpSuccess_def)
    have c': "\<forall>i < length (members env).
               (\<forall>e. run env (members env ! i) query ps = Rejected e
                      \<longrightarrow> vs ! i = clusterOpFailure (members env ! i) e
                          \<and> success (vs ! i) = False
                          \<and> err (vs ! i) = Some e
                          \<and> results (vs ! i) = None
                          \<and> node (vs ! i) = members env ! i
                          \<and> addr (vs ! i) = getBoltAddress (members env ! i))
             \<and> (\<forall>rows. run env (members env ! i) query ps = Resolved rows
                      \<longrightarrow> vs ! i = clusterOpSuccess (members env ! i) (Some rows)
                          \<and> success (vs ! i) = True
                          \<and> results (vs ! i) = Some rows
                          \<and> err (vs ! i) = None
                          \<and> node (vs ! i) = members env ! i
                          \<and> addr (vs ! i) = getBoltAddress (members env ! i))"
    proof (intro allI impI conjI)
      fix i e
      assume "i < length (members env)" and "run env (members env ! i) query ps = Rejected e"
      with c have v: "vs ! i = clusterOpFailure (members env ! i) e" by blast
      show "vs ! i = clusterOpFailure (members env ! i) e" by (rule v)
      show "success (vs ! i) = False" unfolding v using f by blast
      show "err (vs ! i) = Some e" unfolding v using f by blast
      show "results (vs ! i) = None" unfolding v using f by blast
      show "node (vs ! i) = members env ! i" unfolding v using f by blast
      show "addr (vs ! i) = getBoltAddress (members env ! i)" unfolding v using f by blast
    next
      fix i rows
      assume "i < length (members env)" and "run env (members env ! i) query ps = Resolved rows"
      with c have v: "vs ! i = clusterOpSuccess (members env ! i) (Some rows)" by blast
      show "vs ! i = clusterOpSuccess (members env ! i) (Some rows)" by (rule v)
      show "success (vs ! i) = True" unfolding v using k by blast
      show "results (vs ! i) = Some rows" unfolding v using k by blast
      show "err (vs ! i) = None" unfolding v using k by blast
      show "node (vs ! i) = members env ! i" unfolding v using k by blast
      show "addr (vs ! i) = getBoltAddress (members env ! i)" unfolding v using k by blast
    qed
    have s: "agg_success (packageClusterOpResults vs)
               = (\<forall>r \<in> set (agg_results (packageClusterOpResults vs)). success r)"
      by (simp add: packageClusterOpResults_def filter_length_all)
    have g: "agg_results (packageClusterOpResults vs) = vs"
      by (simp add: packageClusterOpResults_def)
    from r s l c' show ?thesis
      by (intro exI [of _ "packageClusterOpResults vs"]) (simp only: g simp_thms)
  qed
  from a b show ?thesis by blast
qed

theorem mapQueryAcrossCluster_captures_failures_witness:
  "list_all (\<lambda>n. run env_one_down n ''RETURN 1'' [] \<noteq> Pending) (members env_one_down)
   \<and> set [0..<length (members env_one_down)] \<subseteq> set [1, 0]
   \<and> (\<exists>agg. mapQueryAcrossCluster env_one_down [1, 0] ''RETURN 1'' [] = Resolved agg
         \<and> agg_results agg ! 0 = clusterOpFailure node_a (Error ''ServiceUnavailable'')
         \<and> success (agg_results agg ! 0) = False
         \<and> err (agg_results agg ! 0) = Some (Error ''ServiceUnavailable'')
         \<and> results (agg_results agg ! 0) = None
         \<and> node (agg_results agg ! 0) = node_a
         \<and> agg_results agg ! 1 = clusterOpSuccess node_b (Some [])
         \<and> success (agg_results agg ! 1) = True
         \<and> results (agg_results agg ! 1) = Some []
         \<and> err (agg_results agg ! 1) = None
         \<and> node (agg_results agg ! 1) = node_b)"
proof -
  have h1: "\<forall>n \<in> set (members env_one_down). run env_one_down n ''RETURN 1'' [] \<noteq> Pending"
    by (simp add: env_one_down_def)
  have h2: "set [0..<length (members env_one_down)] \<subseteq> set [1, 0]"
    by (simp add: env_one_down_def)
  have r0: "run env_one_down (members env_one_down ! 0) ''RETURN 1'' []
              = Rejected (Error ''ServiceUnavailable'')"
    by (simp add: env_one_down_def node_a_def)
  have r1: "run env_one_down (members env_one_down ! 1) ''RETURN 1'' [] = Resolved []"
    by (simp add: env_one_down_def node_b_def)
  have m0: "members env_one_down ! 0 = node_a" and m1: "members env_one_down ! 1 = node_b"
    and l: "length (members env_one_down) = 2"
    by (simp_all add: env_one_down_def)
  have i0: "(0::nat) < length (members env_one_down)" and i1: "(1::nat) < length (members env_one_down)"
    by (simp_all add: l)
  from mapQueryAcrossCluster_captures_failures [of env_one_down "[1, 0]" "''RETURN 1''" "[]"] h1 h2
  obtain agg where
    a: "mapQueryAcrossCluster env_one_down [1, 0] ''RETURN 1'' [] = Resolved agg"
    and c: "\<forall>i < length (members env_one_down).
               (\<forall>e. run env_one_down (members env_one_down ! i) ''RETURN 1'' [] = Rejected e
                      \<longrightarrow> agg_results agg ! i = clusterOpFailure (members env_one_down ! i) e
                          \<and> success (agg_results agg ! i) = False
                          \<and> err (agg_results agg ! i) = Some e
                          \<and> results (agg_results agg ! i) = None
                          \<and> node (agg_results agg ! i) = members env_one_down ! i
                          \<and> addr (agg_results agg ! i) = getBoltAddress (members env_one_down ! i))
             \<and> (\<forall>rows. run env_one_down (members env_one_down ! i) ''RETURN 1'' [] = Resolved rows
                      \<longrightarrow> agg_results agg ! i = clusterOpSuccess (members env_one_down ! i) (Some rows)
                          \<and> success (agg_results agg ! i) = True
                          \<and> results (agg_results agg ! i) = Some rows
                          \<and> err (agg_results agg ! i) = None
                          \<and> node (agg_results agg ! i) = members env_one_down ! i
                          \<and> addr (agg_results agg ! i) = getBoltAddress (members env_one_down ! i))"
    by blast
  from c i0 r0 have e0:
    "agg_results agg ! 0 = clusterOpFailure (members env_one_down ! 0) (Error ''ServiceUnavailable'')
     \<and> success (agg_results agg ! 0) = False
     \<and> err (agg_results agg ! 0) = Some (Error ''ServiceUnavailable'')
     \<and> results (agg_results agg ! 0) = None
     \<and> node (agg_results agg ! 0) = members env_one_down ! 0"
    by blast
  from c i1 r1 have e1:
    "agg_results agg ! 1 = clusterOpSuccess (members env_one_down ! 1) (Some [])
     \<and> success (agg_results agg ! 1) = True
     \<and> results (agg_results agg ! 1) = Some []
     \<and> err (agg_results agg ! 1) = None
     \<and> node (agg_results agg ! 1) = members env_one_down ! 1"
    by blast
  have hl: "list_all (\<lambda>n. run env_one_down n ''RETURN 1'' [] \<noteq> Pending) (members env_one_down)"
    using h1 unfolding list_all_iff .
  from hl h2 a e0 e1 show ?thesis unfolding m0 m1 by blast
qed



section \<open>Associating a user to roles: what a member reports\<close>

text \<open>
  Claim C4 says that a member on which a grant or revoke fails gets a failure entry in
  the final result. \<^verbatim>\<open>applyChanges\<close> does build \<^verbatim>\<open>clusterOpFailure\<close> for it, but the
  two callbacks that follow in the member's chain ignore that value and yield
  \<^verbatim>\<open>clusterOpSuccess(node)\<close>. On the one-member cluster \<open>env_grant_fails\<close>, with the
  desired role \<^verbatim>\<open>admin\<close> whose grant is rejected, the apply step yields the failure and
  the call reports the member, and the whole operation, as a success.
\<close>

theorem associateUserToRoles_failed_grant_reported_as_success:
  "applyChanges env_grant_fails [0] ''alice'' (determineDifferences [''admin''] [] node_a) node_a
     = Resolved (clusterOpFailure node_a (Error ''Role does not exist''))
   \<and> fst (associateUserToRoles env_grant_fails [0] (\<lambda>i. [0]) (\<lambda>i. stamp0) (Some alice)
             (Some [''admin'']) newEventLog)
     = Inr (Resolved \<lparr>agg_success = True, agg_results = [clusterOpSuccess node_a None]\<rparr>)"
  by code_simp

text \<open>
  Claim C5 says that one call appends exactly one \<^verbatim>\<open>roleassoc\<close> event, after every
  member has settled. The call of \<^verbatim>\<open>addEvent\<close> sits inside the chain of each member, so
  every member whose gather and apply steps settle appends an event of its own. On the
  two-member cluster \<open>env_ok\<close> one call leaves two \<^verbatim>\<open>roleassoc\<close> events in the log, and
  it returns the packaged result.
\<close>

theorem associateUserToRoles_one_event_per_member:
  "map entry_type
     (getEventLog (snd (associateUserToRoles env_ok [1, 0] (\<lambda>i. []) (\<lambda>i. if i = 0 then stamp0 else stamp1)
                          (Some alice) (Some [''reader'']) newEventLog)))
     = [Some ''roleassoc'', Some ''roleassoc'']
   \<and> map entry_id
     (getEventLog (snd (associateUserToRoles env_ok [1, 0] (\<lambda>i. []) (\<lambda>i. if i = 0 then stamp0 else stamp1)
                          (Some alice) (Some [''reader'']) newEventLog)))
     = [''id-1'', ''id-0'']
   \<and> fst (associateUserToRoles env_ok [1, 0] (\<lambda>i. []) (\<lambda>i. if i = 0 then stamp0 else stamp1)
            (Some alice) (Some [''reader'']) newEventLog)
     = Inr (Resolved (packageClusterOpResults
                        [clusterOpSuccess node_a None, clusterOpSuccess node_b None]))"
  by code_simp

section \<open>Adding a user: the argument check\<close>

lemma addUser_without_password_throws:
  "falsy (password u) \<Longrightarrow>
   addUser env sched stamp (Some u) log
     = (Inl (Error ''Call with object containing keys username, password''), log)"
  by (simp add: addUser_def)

lemma addUser_with_password_does_not_throw:
  "\<not> falsy (password u) \<Longrightarrow> \<exists>p log'. addUser env sched stamp (Some u) log = (Inr p, log')"
  by (simp add: addUser_def not_object_def split: prod.splits)

text \<open>
  Claim C6 says that \<^verbatim>\<open>addUser\<close> throws for every object that lacks a username or a
  password. The check reads \<^verbatim>\<open>!user || !password\<close>: it tests the object, not its
  username. For the object \<^verbatim>\<open>{ password: "secret" }\<close> nothing is thrown, the statement
  is run on both members of \<open>env_ok\<close> with an undefined username, and an \<^verbatim>\<open>adduser\<close>
  event is logged; \<^verbatim>\<open>deleteUser\<close>, which tests \<^verbatim>\<open>!username\<close>, throws for the same
  object.
\<close>

theorem addUser_without_username_reaches_cluster:
  "fst (addUser env_ok [0, 1] stamp0 (Some \<lparr>username = None, password = Some ''secret''\<rparr>) newEventLog)
     = Inr (Resolved \<lparr>agg_success = True,
                      agg_results = [clusterOpSuccess node_a (Some []), clusterOpSuccess node_b (Some [])]\<rparr>)
   \<and> map entry_type
       (getEventLog (snd (addUser env_ok [0, 1] stamp0
                            (Some \<lparr>username = None, password = Some ''secret''\<rparr>) newEventLog)))
     = [Some ''adduser'']
   \<and> deleteUser env_ok [0, 1] stamp0 (Some \<lparr>username = None, password = Some ''secret''\<rparr>) newEventLog
     = (Inl (Error ''Call with an object containing keys username''), newEventLog)"
  by code_simp

section \<open>The bounded event log\<close>

lemma addEvent_valid:
  "\<not> falsy (ev_message ev) \<Longrightarrow> \<not> falsy (ev_type ev) \<Longrightarrow>
   addEvent stamp ev log = (Inr (), ring_push (stampEvent stamp ev) log)"
  by (simp add: addEvent_def)

lemma ring_push_items:
  assumes "length (items r) \<le> capacity r"
  shows "items (ring_push x r) = drop (length (items r @ [x]) - capacity r) (items r @ [x])"
proof (cases "length (items r) < capacity r")
  case True
  then show ?thesis by (simp add: ring_push_def)
next
  case False
  with assms have eq: "length (items r) = capacity r" by simp
  have "tl (items r @ [x]) = drop (Suc 0) (items r @ [x])"
    by (simp only: drop_Suc drop_0)
  with eq show ?thesis by (simp add: ring_push_def)
qed

lemma ring_push_capacity: "capacity (ring_push x r) = capacity r"
  by (simp add: ring_push_def)

lemma ring_push_bounded:
  "length (items r) \<le> capacity r \<Longrightarrow> length (items (ring_push x r)) \<le> capacity r"
  by (auto simp: ring_push_def)

lemma drop_window:
  assumes "k = length zs - c"
  shows "drop (length (drop k zs @ ws) - c) (drop k zs @ ws) = drop (length (zs @ ws) - c) (zs @ ws)"
proof (cases "length zs \<le> c")
  case True
  with assms show ?thesis by simp
next
  case False
  then have k: "k \<le> length zs" and c: "length zs - k = c" using assms by auto
  have n1: "length (zs @ ws) - c = length ws + k" using k c by simp
  have n2: "length (drop k zs @ ws) - c = length ws" using c by simp
  have split: "drop k (zs @ ws) = drop k zs @ ws" using k by simp
  have "drop (length ws + k) (zs @ ws) = drop (length ws) (drop k (zs @ ws))"
    by (simp only: drop_drop)
  then show ?thesis by (simp only: n1 n2 split)
qed

lemma addEvents_items:
  assumes "\<forall>se \<in> set xs. \<not> falsy (ev_message (snd se)) \<and> \<not> falsy (ev_type (snd se))"
    and "length (items log) \<le> capacity log"
  shows "items (addEvents xs log) =
           drop (length (items log @ map (\<lambda>se. stampEvent (fst se) (snd se)) xs) - capacity log)
                (items log @ map (\<lambda>se. stampEvent (fst se) (snd se)) xs)
         \<and> capacity (addEvents xs log) = capacity log"
  using assms
proof (induction xs arbitrary: log)
  case Nil
  then show ?case by simp
next
  case (Cons se xs)
  let ?e = "stampEvent (fst se) (snd se)"
  let ?log = "ring_push ?e log"
  let ?ws = "map (\<lambda>se. stampEvent (fst se) (snd se)) xs"
  have step: "addEvents (se # xs) log = addEvents xs ?log"
    using Cons.prems(1) by (simp add: addEvent_valid)
  have b: "length (items ?log) \<le> capacity ?log"
    using Cons.prems(2) by (simp add: ring_push_bounded ring_push_capacity)
  have v: "\<forall>se \<in> set xs. \<not> falsy (ev_message (snd se)) \<and> \<not> falsy (ev_type (snd se))"
    using Cons.prems(1) by simp
  have it: "items ?log = drop (length (items log @ [?e]) - capacity log) (items log @ [?e])"
    using Cons.prems(2) by (rule ring_push_items)
  from Cons.IH [OF v b]
  have ih: "items (addEvents xs ?log) =
          drop (length (items ?log @ ?ws) - capacity log) (items ?log @ ?ws)"
    and cap: "capacity (addEvents xs ?log) = capacity log"
    by (simp_all add: ring_push_capacity)
  have "drop (length (items ?log @ ?ws) - capacity log) (items ?log @ ?ws)
      = drop (length ((items log @ [?e]) @ ?ws) - capacity log) ((items log @ [?e]) @ ?ws)"
    unfolding it by (rule drop_window) simp
  with ih have "items (addEvents xs ?log) =
      drop (length ((items log @ [?e]) @ ?ws) - capacity log) ((items log @ [?e]) @ ?ws)"
    by simp
  with step cap show ?case by simp
qed

text \<open>
  Claim C7. Start from the log of a new manager and append any sequence of events that
  all have a message and a type. The log never holds more than 200 entries; the
  snapshot is the last 200 stamped entries (all of them, if fewer) in insertion
  order, oldest first and newest last. After 201 appends the log holds exactly 200
  entries, namely the entries of all appends but the first, and, the ids being
  distinct, the entry of the first append is no longer in it.
\<close>

theorem eventLog_bounded_fifo:
  assumes "\<forall>se \<in> set xs. \<not> falsy (ev_message (snd se)) \<and> \<not> falsy (ev_type (snd se))"
  shows "length (getEventLog (addEvents xs newEventLog)) \<le> 200
     \<and> getEventLog (addEvents xs newEventLog)
         = drop (length xs - 200) (map (\<lambda>se. stampEvent (fst se) (snd se)) xs)
     \<and> (length xs = 201 \<longrightarrow>
          length (getEventLog (addEvents xs newEventLog)) = 200
          \<and> getEventLog (addEvents xs newEventLog)
              = map (\<lambda>se. stampEvent (fst se) (snd se)) (tl xs)
          \<and> (distinct (map (\<lambda>se. snd (fst se)) xs) \<longrightarrow>
                stampEvent (fst (hd xs)) (snd (hd xs))
                  \<notin> set (getEventLog (addEvents xs newEventLog))))"
proof -
  let ?f = "\<lambda>se. stampEvent (fst se) (snd se)"
  let ?log = "getEventLog (addEvents xs newEventLog)"
  have "length (items newEventLog) \<le> capacity newEventLog"
    by (simp add: newEventLog_def Ring_new_def)
  from addEvents_items [OF assms this]
  have snap: "?log = drop (length xs - 200) (map ?f xs)"
    by (simp add: getEventLog_def ring_toArray_def newEventLog_def Ring_new_def MAX_EVENTS_def)
  then have bound: "length ?log \<le> 200" by simp
  have full: "length ?log = 200 \<and> ?log = map ?f (tl xs)
      \<and> (distinct (map (\<lambda>se. snd (fst se)) xs) \<longrightarrow> ?f (hd xs) \<notin> set ?log)"
    if len: "length xs = 201"
  proof -
    from len obtain y ys where xs: "xs = y # ys" by (cases xs) auto
    from snap len have tl: "?log = map ?f (tl xs)"
      by (simp add: drop_Suc drop_map)
    have "?f y \<notin> set (map ?f ys)" if d: "distinct (map (\<lambda>se. snd (fst se)) (y # ys))"
    proof
      assume "?f y \<in> set (map ?f ys)"
      then obtain z where z: "z \<in> set ys" and eq: "?f z = ?f y" by auto
      from eq have "entry_id (?f z) = entry_id (?f y)" by simp
      then have "snd (fst z) = snd (fst y)" by (simp add: stampEvent_def)
      moreover from d have "snd (fst y) \<notin> (\<lambda>se. snd (fst se)) ` set ys" by simp
      ultimately show False using z by (metis imageI)
    qed
    with tl xs len show ?thesis by simp
  qed
  from bound snap full show ?thesis by blast
qed

theorem eventLog_bounded_fifo_witness:
  "list_all (\<lambda>se. \<not> falsy (ev_message (snd se)) \<and> \<not> falsy (ev_type (snd se))) sample_events
   \<and> length sample_events = 201
   \<and> distinct (map (\<lambda>se. snd (fst se)) sample_events)
   \<and> length (getEventLog (addEvents sample_events newEventLog)) = 200
   \<and> getEventLog (addEvents sample_events newEventLog)
       = map (\<lambda>se. stampEvent (fst se) (snd se)) (tl sample_events)
   \<and> stampEvent (fst (hd sample_events)) (snd (hd sample_events))
       \<notin> set (getEventLog (addEvents sample_events newEventLog))"
proof -
  have v: "\<forall>se \<in> set sample_events. \<not> falsy (ev_message (snd se)) \<and> \<not> falsy (ev_type (snd se))"
    by (simp add: sample_events_def sample_event_def falsy_def)
  have l: "length sample_events = 201"
    by (simp add: sample_events_def)
  have "inj_on (\<lambda>i. replicate i (CHR ''x'')) (set [0..<201])"
    by (rule inj_onI) simp
  then have d: "distinct (map (\<lambda>se. snd (fst se)) sample_events)"
    by (simp add: sample_events_def distinct_map comp_def)
  from eventLog_bounded_fifo [OF v] v l d show ?thesis unfolding list_all_iff by blast
qed

text \<open>
  Claim C8. For an event whose message or type is missing or empty, \<^verbatim>\<open>addEvent\<close>
  throws, and the log, its contents and its size are what they were before the call.
\<close>

theorem addEvent_invalid_unchanged:
  assumes "falsy (ev_message ev) \<or> falsy (ev_type ev)"
  shows "addEvent stamp ev log
           = (Inl (Error ''ClusterManager events must have at least message, type''), log)
     \<and> getEventLog (snd (addEvent stamp ev log)) = getEventLog log
     \<and> length (getEventLog (snd (addEvent stamp ev log))) = length (getEventLog log)"
  using assms by (simp add: addEvent_def)

theorem addEvent_invalid_unchanged_witness:
  "falsy (ev_message \<lparr>ev_type = Some ''adduser'', ev_message = Some [], ev_payload = None\<rparr>)
   \<and> addEvent (''2018-11-03T10:00:00.000Z'', ''id-1'')
        \<lparr>ev_type = Some ''adduser'', ev_message = Some [], ev_payload = None\<rparr> newEventLog
      = (Inl (Error ''ClusterManager events must have at least message, type''), newEventLog)"
proof -
  have h: "falsy (ev_message \<lparr>ev_type = Some ''adduser'', ev_message = Some [], ev_payload = None\<rparr>)"
    by (simp add: falsy_def)
  then have "falsy (ev_message \<lparr>ev_type = Some ''adduser'', ev_message = Some [], ev_payload = None\<rparr>)
      \<or> falsy (ev_type \<lparr>ev_type = Some ''adduser'', ev_message = Some [], ev_payload = None\<rparr>)" ..
  from addEvent_invalid_unchanged [OF this] h show ?thesis by blast
qed

section \<open>The role difference\<close>

lemma foldl_set_add_set: "set (foldl set_add acc xs) = set acc \<union> set xs"
  by (induction xs arbitrary: acc) (auto simp: set_add_def)

lemma foldl_set_add_distinct: "distinct acc \<Longrightarrow> distinct (foldl set_add acc xs)"
  by (induction xs arbitrary: acc) (auto simp: set_add_def)

lemma set_newSet: "set (newSet xs) = set xs"
  by (simp add: newSet_def foldl_set_add_set)

lemma distinct_newSet: "distinct (newSet xs)"
  by (simp add: newSet_def foldl_set_add_distinct)

lemma newSet_Nil_iff: "(newSet xs = []) = (xs = [])"
proof -
  have "(newSet xs = []) = (set (newSet xs) = {})" by simp
  also have "\<dots> = (xs = [])" by (simp add: set_newSet)
  finally show ?thesis .
qed

text \<open>
  Claim C9. For the roles \<open>existing\<close> found on a member and the roles \<open>desired\<close>,
  \<^verbatim>\<open>determineDifferences\<close> returns \<open>toDelete = existing - desired\<close>,
  \<open>toAdd = desired - existing\<close> and \<open>toPreserve = existing \<inter> desired\<close> as sets; the
  three are pairwise disjoint, \<open>toPreserve \<union> toAdd = desired\<close>, no role is listed
  twice, and when \<open>existing\<close> and \<open>desired\<close> are the same set both \<open>toAdd\<close> and
  \<open>toDelete\<close> are empty.
\<close>

theorem determineDifferences_partition:
  "set (toDelete (determineDifferences desired existing n)) = set existing - set desired
   \<and> set (toAdd (determineDifferences desired existing n)) = set desired - set existing
   \<and> set (toPreserve (determineDifferences desired existing n)) = set existing \<inter> set desired
   \<and> set (toAdd (determineDifferences desired existing n))
       \<inter> set (toDelete (determineDifferences desired existing n)) = {}
   \<and> set (toAdd (determineDifferences desired existing n))
       \<inter> set (toPreserve (determineDifferences desired existing n)) = {}
   \<and> set (toDelete (determineDifferences desired existing n))
       \<inter> set (toPreserve (determineDifferences desired existing n)) = {}
   \<and> set (toPreserve (determineDifferences desired existing n))
       \<union> set (toAdd (determineDifferences desired existing n)) = set desired
   \<and> distinct (toAdd (determineDifferences desired existing n))
   \<and> distinct (toDelete (determineDifferences desired existing n))
   \<and> distinct (toPreserve (determineDifferences desired existing n))
   \<and> (set existing = set desired \<longrightarrow>
        toAdd (determineDifferences desired existing n) = []
        \<and> toDelete (determineDifferences desired existing n) = [])"
proof -
  let ?d = "determineDifferences desired existing n"
  have del: "set (toDelete ?d) = set existing - set desired"
    by (auto simp: determineDifferences_def Let_def set_newSet has_def)
  have add: "set (toAdd ?d) = set desired - set existing"
    by (auto simp: determineDifferences_def Let_def set_newSet has_def)
  have pre: "set (toPreserve ?d) = set existing \<inter> set desired"
    by (auto simp: determineDifferences_def Let_def set_newSet has_def)
  have dis: "distinct (toAdd ?d) \<and> distinct (toDelete ?d) \<and> distinct (toPreserve ?d)"
    by (simp add: determineDifferences_def Let_def distinct_newSet)
  have conv: "toAdd ?d = [] \<and> toDelete ?d = []" if "set existing = set desired"
  proof -
    from that add del have "set (toAdd ?d) = {}" and "set (toDelete ?d) = {}" by auto
    then show ?thesis by simp
  qed
  have d1: "set (toAdd ?d) \<inter> set (toDelete ?d) = {}" using add del by auto
  have d2: "set (toAdd ?d) \<inter> set (toPreserve ?d) = {}" using add pre by auto
  have d3: "set (toDelete ?d) \<inter> set (toPreserve ?d) = {}" using del pre by auto
  have un: "set (toPreserve ?d) \<union> set (toAdd ?d) = set desired" using add pre by auto
  from del add pre d1 d2 d3 un dis conv show ?thesis by blast
qed

theorem determineDifferences_partition_witness:
  "set [''writer'', ''reader''] = set [''reader'', ''writer'', ''reader'']
   \<and> toAdd (determineDifferences [''reader'', ''writer'', ''reader''] [''writer'', ''reader'']
        node_a) = []
   \<and> toDelete (determineDifferences [''reader'', ''writer'', ''reader''] [''writer'', ''reader'']
        node_a) = []"
proof -
  have h: "set [''writer'', ''reader''] = set [''reader'', ''writer'', ''reader'']" by auto
  with determineDifferences_partition
         [of "[''reader'', ''writer'', ''reader'']" "[''writer'', ''reader'']"
             "node_a"]
  show ?thesis by blast
qed

section \<open>The empty cluster\<close>

text \<open>
  Claim C10. With no members, \<^verbatim>\<open>mapQueryAcrossCluster\<close> resolves, whatever the query,
  to the aggregated result with \<open>success = true\<close> and no entries.
\<close>

theorem mapQueryAcrossCluster_empty_cluster:
  assumes "members env = []"
  shows "mapQueryAcrossCluster env sched query ps
           = Resolved \<lparr>agg_success = True, agg_results = []\<rparr>"
  using assms
  by (simp add: mapQueryAcrossCluster_def promiseAll_def then_p_def packageClusterOpResults_def)

theorem mapQueryAcrossCluster_empty_cluster_witness:
  "members env_empty = []
   \<and> mapQueryAcrossCluster env_empty [] ''RETURN 1'' []
       = Resolved \<lparr>agg_success = True, agg_results = []\<rparr>"
proof -
  have h: "members env_empty = []" by (simp add: env_empty_def)
  from mapQueryAcrossCluster_empty_cluster [OF h] h show ?thesis by simp
qed

end
